theory Spec2Isabelle
  imports Main "HOL-Library.Word"
begin

unbundle bit_operations_syntax

section \<open>The ARM interrupt pipeline glue (arch/arm/kernel/ipipe.c)\<close>

text \<open>
  The functions of \<^verbatim>\<open>ipipe.c\<close> are embedded as state transformers. Names follow the C
  source; a leading \<^verbatim>\<open>__\<close> is dropped because an Isabelle name cannot start with an
  underscore. \<^verbatim>\<open>unsigned long\<close>, \<^verbatim>\<open>unsigned\<close> and \<^verbatim>\<open>int\<close> are 32 bits wide on ARM.
\<close>

subsection \<open>Data\<close>

type_synonym u32 = "32 word"
type_synonym cpu = nat
type_synonym cpumask_t = "cpu set"
type_synonym fnptr = nat

text \<open>\<^verbatim>\<open>struct pt_regs\<close>: the three registers this file reads or writes.\<close>

record pt_regs =
  ARM_cpsr :: u32
  ARM_pc :: u32
  ARM_r7 :: u32

text \<open>\<^verbatim>\<open>struct ipipe_mach_pic_muter\<close>: two nullable function pointers.\<close>

record ipipe_mach_pic_muter =
  enable_irqdesc :: "fnptr option"
  disable_irqdesc :: "fnptr option"

text \<open>
  What the sequential code of the file can observe leaving the local CPU, in program
  order. \<open>EvStatusWrite b\<close> is a store to the root status word, \<open>b\<close> telling whether the
  hardware interrupts were masked at that instant; \<open>EvDispatch irq flags b\<close> is a call of
  the dispatch engine, \<open>b\<close> again the hardware mask on entry; \<open>EvNotifyTrap t f\<close> is a
  trap notification, \<open>f\<close> the value of \<^verbatim>\<open>current->ipipe.flags\<close> when it is delivered;
  \<open>EvWarn n\<close> is a warning printed by the \<open>n\<close>-th \<^verbatim>\<open>WARN_ON_ONCE\<close> of the file.
\<close>

datatype event =
    EvRootOnly
  | EvStatusWrite bool
  | EvDispatch u32 u32 bool
  | EvNotifyTrap nat u32
  | EvNotifySyscall
  | EvSyncStage
  | EvWarn nat
  | EvSetAffinity u32 cpumask_t bool
  | EvMuterEnable fnptr u32
  | EvMuterDisable fnptr u32
  | EvTraceIrqEntry u32
  | EvTraceIrqExit u32

text \<open>
  The state of the local CPU and of the current task, as far as this file touches it:
  the CPSR interrupt mask, the root domain's status word and pending log
  (\<^verbatim>\<open>__ipipe_root_status\<close>, the root context's pending set), \<^verbatim>\<open>current->ipipe.flags\<close>,
  the fields of \<^verbatim>\<open>ipipe_percpu\<close> read by \<^verbatim>\<open>__ipipe_grab_irq\<close>, the exception frame
  \<^verbatim>\<open>*regs\<close> that the entry code passes by pointer, the global
  \<^verbatim>\<open>ipipe_pic_muter\<close>, the one-shot flags of the three \<^verbatim>\<open>WARN_ON_ONCE\<close> sites, and the
  observation log.
\<close>

record kstate =
  hard_irqs_off :: bool
  root_status :: u32
  root_irqpend :: "nat set"
  task_flags :: u32
  hrtimer_irq :: u32
  tick_regs :: pt_regs
  curr_is_root :: bool
  regs :: pt_regs
  ipipe_pic_muter :: ipipe_mach_pic_muter
  warned :: "nat \<Rightarrow> bool"
  trace :: "event list"

text \<open>
  Everything the file uses but does not define: header constants, macros and the
  collaborators it calls. They are parameters of the model; a function pointer is an
  address (\<open>fnptr\<close>) that \<open>call_muter\<close> and \<open>call_set_affinity\<close> resolve, a descriptor
  or domain pointer is an address too, and \<open>None\<close> is \<^verbatim>\<open>NULL\<close>.
\<close>

record kenv =
  IPIPE_STALL_FLAG :: nat
  IPIPE_IRQF_NOACK :: u32
  PF_MAYDAY :: u32
  PSR_I_BIT :: u32
  IPIPE_TRAP_MAYDAY :: nat
  NR_SYSCALL_BASE :: u32
  user_mode :: "pt_regs \<Rightarrow> bool"
  dispatch_irq :: "u32 \<Rightarrow> u32 \<Rightarrow> kstate \<Rightarrow> kstate"
  notify_trap :: "nat \<Rightarrow> kstate \<Rightarrow> kstate"
  notify_syscall :: "kstate \<Rightarrow> u32 \<times> kstate"
  syscall_watched_p :: "u32 \<Rightarrow> kstate \<Rightarrow> bool"
  sync_stage :: "kstate \<Rightarrow> kstate"
  irq_to_desc :: "u32 \<Rightarrow> nat option"
  call_muter :: "fnptr \<Rightarrow> nat \<Rightarrow> u32 \<Rightarrow> kstate \<Rightarrow> kstate"
  chip_set_affinity :: "u32 \<Rightarrow> fnptr option"
  call_set_affinity :: "fnptr \<Rightarrow> u32 \<Rightarrow> cpumask_t \<Rightarrow> bool \<Rightarrow> kstate \<Rightarrow> kstate"
  cpu_online_mask :: cpumask_t

subsection \<open>Primitives\<close>

text \<open>
  Modelled from the spec: the hardware masking primitives \<^verbatim>\<open>hard_local_irq_save\<close>,
  \<^verbatim>\<open>hard_local_irq_restore\<close>, \<^verbatim>\<open>hard_local_irq_disable\<close> and \<^verbatim>\<open>hard_local_irq_enable\<close>
  are macros of a header that is not among the sources. Section 4.1 gives their contract:
  saving returns the previous mask as a token and disables; restoring with a token that
  had interrupts enabled re-enables them, restoring with a disabled token leaves them
  disabled. The token is the mask bit itself.
\<close>

definition hard_local_irq_save :: "kstate \<Rightarrow> bool \<times> kstate" where
  "hard_local_irq_save s = (hard_irqs_off s, s\<lparr>hard_irqs_off := True\<rparr>)"

definition hard_local_irq_restore :: "bool \<Rightarrow> kstate \<Rightarrow> kstate" where
  "hard_local_irq_restore flags s = s\<lparr>hard_irqs_off := flags\<rparr>"

definition hard_local_irq_disable :: "kstate \<Rightarrow> kstate" where
  "hard_local_irq_disable s = s\<lparr>hard_irqs_off := True\<rparr>"

definition hard_local_irq_enable :: "kstate \<Rightarrow> kstate" where
  "hard_local_irq_enable s = s\<lparr>hard_irqs_off := False\<rparr>"

text \<open>An observation is appended to the log.\<close>

definition emit :: "event \<Rightarrow> kstate \<Rightarrow> kstate" where
  "emit e s = s\<lparr>trace := trace s @ [e]\<rparr>"

text \<open>
  A call of a collaborator: it may change the machine state in any way, and the call is
  logged. The log is the model's own, so the collaborator's effect on it is discarded.
\<close>

definition extern :: "event \<Rightarrow> (kstate \<Rightarrow> kstate) \<Rightarrow> kstate \<Rightarrow> kstate" where
  "extern e f s = (f s)\<lparr>trace := trace s @ [e]\<rparr>"

text \<open>
  \<^verbatim>\<open>ipipe_root_only()\<close> is a debug assertion on the calling context; it changes nothing
  the file reads.
\<close>

definition ipipe_root_only :: "kstate \<Rightarrow> kstate" where
  "ipipe_root_only s = emit EvRootOnly s"

text \<open>
  The non-atomic bit operations on \<^verbatim>\<open>__ipipe_root_status\<close>. A store is logged together
  with the hardware mask in force. The \<^verbatim>\<open>int\<close> result is 0 or 1.
\<close>

definition status_set_bit :: "nat \<Rightarrow> kstate \<Rightarrow> kstate" where
  "status_set_bit nr s =
     emit (EvStatusWrite (hard_irqs_off s)) (s\<lparr>root_status := set_bit nr (root_status s)\<rparr>)"

definition status_test_and_set_bit :: "nat \<Rightarrow> kstate \<Rightarrow> u32 \<times> kstate" where
  "status_test_and_set_bit nr s =
     ((if bit (root_status s) nr then 1 else 0), status_set_bit nr s)"

definition status_test_bit :: "nat \<Rightarrow> kstate \<Rightarrow> u32" where
  "status_test_bit nr s = (if bit (root_status s) nr then 1 else 0)"

subsection \<open>The root stall flag\<close>

text \<open>
  These three functions stand in the \<^verbatim>\<open>CONFIG_SMP\<close> part of the file, where
  \<^verbatim>\<open>hard_smp_local_irq_save\<close> is \<^verbatim>\<open>hard_local_irq_save\<close>.
\<close>

definition ipipe_stall_root :: "kenv \<Rightarrow> kstate \<Rightarrow> kstate" where
  "ipipe_stall_root E s =
     (let s0 = ipipe_root_only s;
          (flags, s1) = hard_local_irq_save s0;
          s2 = status_set_bit (IPIPE_STALL_FLAG E) s1
      in hard_local_irq_restore flags s2)"

definition ipipe_test_and_stall_root :: "kenv \<Rightarrow> kstate \<Rightarrow> u32 \<times> kstate" where
  "ipipe_test_and_stall_root E s =
     (let s0 = ipipe_root_only s;
          (flags, s1) = hard_local_irq_save s0;
          (x, s2) = status_test_and_set_bit (IPIPE_STALL_FLAG E) s1;
          s3 = hard_local_irq_restore flags s2
      in (x, s3))"

definition ipipe_test_root :: "kenv \<Rightarrow> kstate \<Rightarrow> u32 \<times> kstate" where
  "ipipe_test_root E s =
     (let (flags, s1) = hard_local_irq_save s;
          x = status_test_bit (IPIPE_STALL_FLAG E) s1;
          s2 = hard_local_irq_restore flags s1
      in (x, s2))"

subsection \<open>Raising an interrupt by software\<close>

definition ipipe_dispatch_irq :: "kenv \<Rightarrow> u32 \<Rightarrow> u32 \<Rightarrow> kstate \<Rightarrow> kstate" where
  "ipipe_dispatch_irq E irq flags s =
     extern (EvDispatch irq flags (hard_irqs_off s)) (dispatch_irq E irq flags) s"

definition ipipe_raise_irq :: "kenv \<Rightarrow> u32 \<Rightarrow> kstate \<Rightarrow> kstate" where
  "ipipe_raise_irq E irq s =
     (let (flags, s1) = hard_local_irq_save s;
          s2 = ipipe_dispatch_irq E irq (IPIPE_IRQF_NOACK E) s1
      in hard_local_irq_restore flags s2)"

subsection \<open>Enabling and disabling an interrupt line for a domain\<close>

definition ipipe_pic_muter_register :: "ipipe_mach_pic_muter \<Rightarrow> kstate \<Rightarrow> kstate" where
  "ipipe_pic_muter_register muter s = s\<lparr>ipipe_pic_muter := muter\<rparr>"

definition ipipe_enable_irqdesc :: "kenv \<Rightarrow> nat \<Rightarrow> u32 \<Rightarrow> kstate \<Rightarrow> kstate" where
  "ipipe_enable_irqdesc E ipd irq s =
     (if irq_to_desc E irq = None then s
      else case enable_irqdesc (ipipe_pic_muter s) of
             None \<Rightarrow> s
           | Some f \<Rightarrow> extern (EvMuterEnable f irq) (call_muter E f ipd irq) s)"

definition ipipe_disable_irqdesc :: "kenv \<Rightarrow> nat \<Rightarrow> u32 \<Rightarrow> kstate \<Rightarrow> kstate" where
  "ipipe_disable_irqdesc E ipd irq s =
     (case disable_irqdesc (ipipe_pic_muter s) of
        None \<Rightarrow> s
      | Some f \<Rightarrow> extern (EvMuterDisable f irq) (call_muter E f ipd irq) s)"

subsection \<open>Interrupt affinity\<close>

text \<open>
  \<^verbatim>\<open>WARN_ON_ONCE(cond)\<close> is the macro of the kernel's generic headers, which are not
  among the sources. It evaluates to \<^verbatim>\<open>cond\<close> and, as its name says, prints its warning
  only the first time the condition holds at that place in the code: each use owns a
  static flag, here \<open>warned s site\<close>.
\<close>

definition WARN_ON_ONCE :: "nat \<Rightarrow> bool \<Rightarrow> kstate \<Rightarrow> bool \<times> kstate" where
  "WARN_ON_ONCE site cond s =
     (if cond
      then (if warned s site then (True, s)
            else (True, emit (EvWarn site) (s\<lparr>warned := (warned s)(site := True)\<rparr>)))
      else (False, s))"


subsection \<open>The syscall gateway and the exit from an interrupt\<close>

definition ipipe_notify_trap :: "kenv \<Rightarrow> nat \<Rightarrow> kstate \<Rightarrow> kstate" where
  "ipipe_notify_trap E trap s = extern (EvNotifyTrap trap (task_flags s)) (notify_trap E trap) s"

definition ipipe_notify_syscall :: "kenv \<Rightarrow> kstate \<Rightarrow> u32 \<times> kstate" where
  "ipipe_notify_syscall E s =
     (fst (notify_syscall E s), extern EvNotifySyscall (\<lambda>s. snd (notify_syscall E s)) s)"

definition ipipe_sync_stage :: "kenv \<Rightarrow> kstate \<Rightarrow> kstate" where
  "ipipe_sync_stage E s = extern EvSyncStage (sync_stage E) s"

text \<open>The test and the clearing of \<^verbatim>\<open>PF_MAYDAY\<close>, as both functions below write them.\<close>

definition mayday_pending :: "kenv \<Rightarrow> kstate \<Rightarrow> bool" where
  "mayday_pending E s = (task_flags s AND PF_MAYDAY E \<noteq> 0)"

definition mayday_clear :: "kenv \<Rightarrow> kstate \<Rightarrow> kstate" where
  "mayday_clear E s = s\<lparr>task_flags := task_flags s AND NOT (PF_MAYDAY E)\<rparr>"

definition ipipe_syscall_root :: "kenv \<Rightarrow> u32 \<Rightarrow> kstate \<Rightarrow> u32 \<times> kstate" where
  "ipipe_syscall_root E scno s =
     (let (w, s0) = WARN_ON_ONCE 2 (hard_irqs_off s) s;
          orig_r7 = ARM_r7 (regs s0);
          s1 = s0\<lparr>regs := (regs s0)\<lparr>ARM_r7 := NR_SYSCALL_BASE E + scno\<rparr>\<rparr>
      in if \<not> syscall_watched_p E (ARM_r7 (regs s1)) s1
         then (- 0, s1\<lparr>regs := (regs s1)\<lparr>ARM_r7 := orig_r7\<rparr>\<rparr>)
         else
           let (ret, s2) = ipipe_notify_syscall E s1;
               s3 = hard_local_irq_disable s2;
               s4 = (if mayday_pending E s3
                     then ipipe_notify_trap E (IPIPE_TRAP_MAYDAY E) (mayday_clear E s3)
                     else s3);
               (ret', s5) =
                 (if \<not> curr_is_root s4 then (- 1, s4)
                  else (ret, if root_irqpend s4 \<noteq> {} then ipipe_sync_stage E s4 else s4));
               s6 = hard_local_irq_enable s5
           in (- ret', s6\<lparr>regs := (regs s6)\<lparr>ARM_r7 := orig_r7\<rparr>\<rparr>))"

definition ipipe_exit_irq :: "kenv \<Rightarrow> kstate \<Rightarrow> kstate" where
  "ipipe_exit_irq E s =
     (if user_mode E (regs s) \<and> mayday_pending E s
      then ipipe_notify_trap E (IPIPE_TRAP_MAYDAY E) (mayday_clear E s)
      else s)"

subsection \<open>The entry of a hardware interrupt\<close>

text \<open>
  The code at the label \<^verbatim>\<open>copy_regs\<close>: the status register and the program counter of
  the interrupted context are recorded, the former with the interrupt bit forced when
  the CPU is not running the root domain.
\<close>

definition copy_regs :: "kenv \<Rightarrow> kstate \<Rightarrow> kstate" where
  "copy_regs E s =
     s\<lparr>tick_regs := (tick_regs s)
         \<lparr>ARM_cpsr := (if curr_is_root s then ARM_cpsr (regs s)
                       else ARM_cpsr (regs s) OR PSR_I_BIT E),
          ARM_pc := ARM_pc (regs s)\<rparr>\<rparr>"

text \<open>
  The part of \<^verbatim>\<open>__ipipe_grab_irq\<close> before the dispatch. \<^verbatim>\<open>hrtimer_irq\<close> is an \<^verbatim>\<open>int\<close>;
  \<open>- 1\<close> is the 32-bit pattern of \<^verbatim>\<open>-1\<close>. The debug hook under
  \<^verbatim>\<open>CONFIG_IPIPE_DEBUG_INTERNAL\<close> is configured out.
\<close>

definition grab_irq_entry :: "kenv \<Rightarrow> u32 \<Rightarrow> kstate \<Rightarrow> kstate" where
  "grab_irq_entry E irq s =
     (let s0 = emit (EvTraceIrqEntry irq) s
      in if hrtimer_irq s0 = - 1 then copy_regs E s0
         else if irq = hrtimer_irq s0 then copy_regs E s0
         else s0)"

definition ipipe_grab_irq :: "kenv \<Rightarrow> u32 \<Rightarrow> kstate \<Rightarrow> kstate" where
  "ipipe_grab_irq E irq s =
     (let s1 = grab_irq_entry E irq s;
          s2 = ipipe_dispatch_irq E irq 0 s1;
          s3 = emit (EvTraceIrqExit irq) s2
      in ipipe_exit_irq E s3)"

subsection \<open>A sample configuration\<close>

text \<open>
  An environment and a state on which the model is evaluated. The sample dispatch
  engine unmasks the hardware interrupts, as a handler may; the other collaborators do
  nothing. Interrupt lines 0 to 31 have a descriptor and a chip without a set-affinity
  primitive, lines 32 to 63 have a descriptor and a chip with one, the other lines have
  no descriptor. CPUs 0 and 1 are online.
\<close>

definition sample_env :: kenv where
  "sample_env =
     \<lparr>IPIPE_STALL_FLAG = 0, IPIPE_IRQF_NOACK = 1, PF_MAYDAY = 1, PSR_I_BIT = 0x80,
      IPIPE_TRAP_MAYDAY = 9, NR_SYSCALL_BASE = 0,
      user_mode = (\<lambda>r. ARM_cpsr r AND 0xf = 0),
      dispatch_irq = (\<lambda>irq flags s. s\<lparr>hard_irqs_off := False\<rparr>),
      notify_trap = (\<lambda>trap s. s),
      notify_syscall = (\<lambda>s. (0, s)),
      syscall_watched_p = (\<lambda>nr s. nr = 0x0f0042),
      sync_stage = (\<lambda>s. s),
      irq_to_desc = (\<lambda>irq. if irq < 64 then Some (unat irq) else None),
      call_muter = (\<lambda>f ipd irq s. s),
      chip_set_affinity = (\<lambda>irq. if irq < 32 then None else Some 7),
      call_set_affinity = (\<lambda>f irq m force s. s),
      cpu_online_mask = {0, 1}\<rparr>"

definition sample_regs :: pt_regs where
  "sample_regs = \<lparr>ARM_cpsr = 0x10, ARM_pc = 0x8000, ARM_r7 = 4\<rparr>"

definition sample_state :: kstate where
  "sample_state =
     \<lparr>hard_irqs_off = False, root_status = 0, root_irqpend = {}, task_flags = 0,
      hrtimer_irq = 29, tick_regs = \<lparr>ARM_cpsr = 0, ARM_pc = 0, ARM_r7 = 0\<rparr>,
      curr_is_root = True, regs = sample_regs,
      ipipe_pic_muter = \<lparr>enable_irqdesc = Some 3, disable_irqdesc = Some 4\<rparr>,
      warned = (\<lambda>site. False), trace = []\<rparr>"

section \<open>The virtual NMI broadcast (CONFIG_SMP)\<close>

text \<open>
  \<^verbatim>\<open>__ipipe_send_vnmi\<close> and \<^verbatim>\<open>__ipipe_do_vnmi\<close> run on several CPUs at once and meet in
  the shared slot \<^verbatim>\<open>__ipipe_vnmi\<close>. They are embedded as an interleaving of atomic
  actions: each CPU has a program counter in either function, and a schedule says which
  CPU moves next. Memory is sequentially consistent.
\<close>

subsection \<open>Data\<close>

text \<open>\<^verbatim>\<open>struct __ipipe_vnmidata\<close>.\<close>

record vnmidata =
  fn :: fnptr
  arg :: nat
  cpumask :: cpumask_t

text \<open>
  Where a CPU stands in \<^verbatim>\<open>__ipipe_send_vnmi\<close>: outside the function, at the
  \<^verbatim>\<open>spin_trylock_irqsave\<close> of the loop condition, in the loop body after a failed
  attempt, at the clearing of its own bit once the lock is held, and then at each of the
  statements that touch shared memory, down to the final \<^verbatim>\<open>spin_unlock_irqrestore\<close>,
  which both the early and the normal return execute.
\<close>

datatype spc =
    S_idle
  | S_trylock
  | S_body
  | S_clear
  | S_wrlock1
  | S_publish
  | S_wrunlock1
  | S_ipi
  | S_wait
  | S_wrlock2
  | S_withdraw
  | S_wrunlock2
  | S_unlock

text \<open>
  Where a CPU stands in \<^verbatim>\<open>__ipipe_do_vnmi\<close>. After the test, the local pointer \<^verbatim>\<open>data\<close>
  is part of the program counter: it is the address of the descriptor, which is the
  stack frame of the sending CPU.
\<close>

datatype hpc =
    H_idle
  | H_rdlock
  | H_test
  | H_call cpu
  | H_clear cpu
  | H_rdunlock

text \<open>What a call of \<^verbatim>\<open>__ipipe_send_vnmi\<close> has done to the shared slot so far.\<close>

datatype vnmi_event = Acquired | Published | IpiSent | Withdrawn | Released

text \<open>
  The shared memory and the CPUs. \<open>vnmi_lock\<close>, \<open>vnmi_data\<close>, \<open>wr_lock\<close> and \<open>rd_lock\<close>
  are \<^verbatim>\<open>__ipipe_vnmi.lock\<close> (its holder), \<^verbatim>\<open>__ipipe_vnmi.data\<close> (\<open>None\<close> is \<^verbatim>\<open>NULL\<close>,
  \<open>Some d\<close> the address of the local \<^verbatim>\<open>data\<close> of CPU \<open>d\<close>) and the writer and the readers
  of \<^verbatim>\<open>__ipipe_vnmi.data_lock\<close>. \<open>frame c\<close> and \<open>saved_flags c\<close> are the locals \<^verbatim>\<open>data\<close> and
  \<^verbatim>\<open>flags\<close> of the call running on CPU \<open>c\<close>. \<open>hw_off c\<close> is the hardware interrupt mask
  of CPU \<open>c\<close>, \<open>ipi_pending\<close> the CPUs with an \<^verbatim>\<open>IPIPE_SERVICE_VNMI\<close> raised and not yet
  taken, \<open>in_irq c\<close> tells whether the service routine running on \<open>c\<close> was entered by the
  interrupt.

  The last four fields only record history. \<open>req d\<close> is the mask passed to the current
  or last call on CPU \<open>d\<close>, \<open>runs d t\<close> counts how often CPU \<open>t\<close> has executed the function
  of that call, \<open>call_log d\<close> lists what that call did to the slot, and \<open>fn_log\<close> lists
  every execution of a broadcast function: the executing CPU, the function and its
  argument.
\<close>

record vstate =
  vnmi_lock :: "cpu option"
  vnmi_data :: "cpu option"
  wr_lock :: "cpu option"
  rd_lock :: "cpu set"
  frame :: "cpu \<Rightarrow> vnmidata"
  saved_flags :: "cpu \<Rightarrow> bool"
  hw_off :: "cpu \<Rightarrow> bool"
  ipi_pending :: "cpu set"
  in_irq :: "cpu \<Rightarrow> bool"
  spc :: "cpu \<Rightarrow> spc"
  hpc :: "cpu \<Rightarrow> hpc"
  req :: "cpu \<Rightarrow> cpumask_t"
  runs :: "cpu \<Rightarrow> cpu \<Rightarrow> nat"
  call_log :: "cpu \<Rightarrow> vnmi_event list"
  fn_log :: "(cpu \<times> fnptr \<times> nat) list"

text \<open>
  The moves of a schedule: CPU \<open>c\<close> calls \<^verbatim>\<open>__ipipe_send_vnmi(f, m, a)\<close>; CPU \<open>c\<close> executes
  its next atomic action; CPU \<open>c\<close> takes a pending service interrupt, which
  \<^verbatim>\<open>__ipipe_hook_critical_ipi\<close> has routed to \<^verbatim>\<open>__ipipe_do_vnmi\<close>; CPU \<open>c\<close>, outside both
  functions, masks or unmasks its hardware interrupts.
\<close>

datatype action =
    ACall cpu fnptr nat cpumask_t
  | AStep cpu
  | AIrq cpu
  | AMask cpu bool

subsection \<open>The service routine\<close>

text \<open>
  One atomic action of \<^verbatim>\<open>__ipipe_do_vnmi\<close> on CPU \<open>c\<close>: \<^verbatim>\<open>read_lock\<close>, which spins while
  a writer holds the lock; the read of \<^verbatim>\<open>__ipipe_vnmi.data\<close> with the test of the own
  bit; the call \<^verbatim>\<open>data->fn(data->arg)\<close>; the atomic \<^verbatim>\<open>cpu_clear\<close> of the own bit in the
  sender's mask; \<^verbatim>\<open>read_unlock\<close> and the return, which unmasks the interrupts if the
  routine was entered by the interrupt.
\<close>

definition ipipe_do_vnmi :: "cpu \<Rightarrow> vstate \<Rightarrow> vstate" where
  "ipipe_do_vnmi c s =
     (case hpc s c of
        H_idle \<Rightarrow> s
      | H_rdlock \<Rightarrow>
          if wr_lock s = None
          then s\<lparr>rd_lock := insert c (rd_lock s), hpc := (hpc s)(c := H_test)\<rparr>
          else s
      | H_test \<Rightarrow>
          (case vnmi_data s of
             None \<Rightarrow> s\<lparr>hpc := (hpc s)(c := H_rdunlock)\<rparr>
           | Some d \<Rightarrow>
               if c \<in> cpumask (frame s d)
               then s\<lparr>hpc := (hpc s)(c := H_call d)\<rparr>
               else s\<lparr>hpc := (hpc s)(c := H_rdunlock)\<rparr>)
      | H_call d \<Rightarrow>
          s\<lparr>runs := (runs s)(d := (runs s d)(c := Suc (runs s d c))),
            fn_log := fn_log s @ [(c, fn (frame s d), arg (frame s d))],
            hpc := (hpc s)(c := H_clear d)\<rparr>
      | H_clear d \<Rightarrow>
          s\<lparr>frame := (frame s)(d := (frame s d)\<lparr>cpumask := cpumask (frame s d) - {c}\<rparr>),
            hpc := (hpc s)(c := H_rdunlock)\<rparr>
      | H_rdunlock \<Rightarrow>
          s\<lparr>rd_lock := rd_lock s - {c},
            hw_off := (if in_irq s c then (hw_off s)(c := False) else hw_off s),
            in_irq := (in_irq s)(c := False),
            hpc := (hpc s)(c := H_idle)\<rparr>)"

subsection \<open>The broadcast\<close>

text \<open>
  One atomic action of \<^verbatim>\<open>__ipipe_send_vnmi\<close> on CPU \<open>c\<close>. A successful
  \<^verbatim>\<open>spin_trylock_irqsave\<close> saves the hardware mask and leaves the interrupts masked, a
  failed one leaves the mask as it was. In the loop body the service routine is called
  if the interrupts are masked. \<^verbatim>\<open>cpu_clear(cpu, data.cpumask)\<close> and the test
  \<^verbatim>\<open>cpus_empty(data.cpumask)\<close> act on a local that is not published yet. \<^verbatim>\<open>write_lock\<close>
  spins while the lock has a writer or a reader. The wait loop reads the mask that the
  targets clear.
\<close>

definition ipipe_send_vnmi :: "cpu \<Rightarrow> vstate \<Rightarrow> vstate" where
  "ipipe_send_vnmi c s =
     (case spc s c of
        S_idle \<Rightarrow> s
      | S_trylock \<Rightarrow>
          (case vnmi_lock s of
             None \<Rightarrow>
               s\<lparr>vnmi_lock := Some c,
                 saved_flags := (saved_flags s)(c := hw_off s c),
                 hw_off := (hw_off s)(c := True),
                 call_log := (call_log s)(c := call_log s c @ [Acquired]),
                 spc := (spc s)(c := S_clear)\<rparr>
           | Some h \<Rightarrow> s\<lparr>spc := (spc s)(c := S_body)\<rparr>)
      | S_body \<Rightarrow>
          if hw_off s c
          then s\<lparr>hpc := (hpc s)(c := H_rdlock), spc := (spc s)(c := S_trylock)\<rparr>
          else s\<lparr>spc := (spc s)(c := S_trylock)\<rparr>
      | S_clear \<Rightarrow>
          (let m = cpumask (frame s c) - {c};
               s1 = s\<lparr>frame := (frame s)(c := (frame s c)\<lparr>cpumask := m\<rparr>)\<rparr>
           in if m = {} then s1\<lparr>spc := (spc s)(c := S_unlock)\<rparr>
              else s1\<lparr>spc := (spc s)(c := S_wrlock1)\<rparr>)
      | S_wrlock1 \<Rightarrow>
          if wr_lock s = None \<and> rd_lock s = {}
          then s\<lparr>wr_lock := Some c, spc := (spc s)(c := S_publish)\<rparr>
          else s
      | S_publish \<Rightarrow>
          s\<lparr>vnmi_data := Some c,
            call_log := (call_log s)(c := call_log s c @ [Published]),
            spc := (spc s)(c := S_wrunlock1)\<rparr>
      | S_wrunlock1 \<Rightarrow> s\<lparr>wr_lock := None, spc := (spc s)(c := S_ipi)\<rparr>
      | S_ipi \<Rightarrow>
          s\<lparr>ipi_pending := ipi_pending s \<union> cpumask (frame s c),
            call_log := (call_log s)(c := call_log s c @ [IpiSent]),
            spc := (spc s)(c := S_wait)\<rparr>
      | S_wait \<Rightarrow>
          if cpumask (frame s c) = {} then s\<lparr>spc := (spc s)(c := S_wrlock2)\<rparr> else s
      | S_wrlock2 \<Rightarrow>
          if wr_lock s = None \<and> rd_lock s = {}
          then s\<lparr>wr_lock := Some c, spc := (spc s)(c := S_withdraw)\<rparr>
          else s
      | S_withdraw \<Rightarrow>
          s\<lparr>vnmi_data := None,
            call_log := (call_log s)(c := call_log s c @ [Withdrawn]),
            spc := (spc s)(c := S_wrunlock2)\<rparr>
      | S_wrunlock2 \<Rightarrow> s\<lparr>wr_lock := None, spc := (spc s)(c := S_unlock)\<rparr>
      | S_unlock \<Rightarrow>
          s\<lparr>vnmi_lock := None,
            hw_off := (hw_off s)(c := saved_flags s c),
            call_log := (call_log s)(c := call_log s c @ [Released]),
            spc := (spc s)(c := S_idle)\<rparr>)"

subsection \<open>Schedules\<close>

text \<open>
  A CPU inside the service routine finishes it before it goes on with the broadcast:
  the routine was either called from the loop body or entered by an interrupt.
\<close>

definition cpu_step :: "cpu \<Rightarrow> vstate \<Rightarrow> vstate" where
  "cpu_step c s = (if hpc s c \<noteq> H_idle then ipipe_do_vnmi c s else ipipe_send_vnmi c s)"

text \<open>
  A move that is not possible leaves the state unchanged. The call stores its arguments
  in the local descriptor. The interrupt is taken only with the hardware interrupts
  unmasked and masks them.
\<close>

definition act :: "action \<Rightarrow> vstate \<Rightarrow> vstate" where
  "act a s =
     (case a of
        ACall c f x m \<Rightarrow>
          if spc s c = S_idle \<and> hpc s c = H_idle
          then s\<lparr>frame := (frame s)(c := \<lparr>fn = f, arg = x, cpumask = m\<rparr>),
                 req := (req s)(c := m),
                 runs := (runs s)(c := (\<lambda>t. 0)),
                 call_log := (call_log s)(c := []),
                 spc := (spc s)(c := S_trylock)\<rparr>
          else s
      | AStep c \<Rightarrow> cpu_step c s
      | AIrq c \<Rightarrow>
          if c \<in> ipi_pending s \<and> \<not> hw_off s c \<and> hpc s c = H_idle
          then s\<lparr>ipi_pending := ipi_pending s - {c},
                 hw_off := (hw_off s)(c := True),
                 in_irq := (in_irq s)(c := True),
                 hpc := (hpc s)(c := H_rdlock)\<rparr>
          else s
      | AMask c b \<Rightarrow>
          if spc s c = S_idle \<and> hpc s c = H_idle
          then s\<lparr>hw_off := (hw_off s)(c := b)\<rparr>
          else s)"

fun exec :: "action list \<Rightarrow> vstate \<Rightarrow> vstate" where
  "exec [] s = s"
| "exec (a # as) s = exec as (act a s)"

text \<open>
  The state at boot: the static initialiser of \<^verbatim>\<open>__ipipe_vnmi\<close> (both locks free, the
  pointer \<^verbatim>\<open>NULL\<close>), every CPU outside both functions with its interrupts unmasked.
\<close>

definition vnmi_boot :: vstate where
  "vnmi_boot =
     \<lparr>vnmi_lock = None, vnmi_data = None, wr_lock = None, rd_lock = {},
      frame = (\<lambda>c. \<lparr>fn = 0, arg = 0, cpumask = {}\<rparr>),
      saved_flags = (\<lambda>c. False), hw_off = (\<lambda>c. False), ipi_pending = {},
      in_irq = (\<lambda>c. False), spc = (\<lambda>c. S_idle), hpc = (\<lambda>c. H_idle),
      req = (\<lambda>c. {}), runs = (\<lambda>d t. 0), call_log = (\<lambda>c. []), fn_log = []\<rparr>"

subsection \<open>Invariants of the protocol\<close>

text \<open>A CPU between the acquisition and the release of the broadcast lock holds it.\<close>

definition holds_lock :: "spc \<Rightarrow> bool" where
  "holds_lock p = (p \<notin> {S_idle, S_trylock, S_body})"

definition inv_lock :: "vstate \<Rightarrow> bool" where
  "inv_lock s = (\<forall>c. holds_lock (spc s c) \<longrightarrow> vnmi_lock s = Some c)"

text \<open>A CPU between \<^verbatim>\<open>write_lock\<close> and \<^verbatim>\<open>write_unlock\<close> is the writer; a writer excludes
  readers; a CPU between \<^verbatim>\<open>read_lock\<close> and \<^verbatim>\<open>read_unlock\<close> is a reader.\<close>

definition inv_wr :: "vstate \<Rightarrow> bool" where
  "inv_wr s =
     (\<forall>c. spc s c \<in> {S_publish, S_wrunlock1, S_withdraw, S_wrunlock2} \<longrightarrow> wr_lock s = Some c)"

definition inv_rw :: "vstate \<Rightarrow> bool" where
  "inv_rw s = (wr_lock s \<noteq> None \<longrightarrow> rd_lock s = {})"

definition inv_rd :: "vstate \<Rightarrow> bool" where
  "inv_rd s = (\<forall>t. hpc s t \<notin> {H_idle, H_rdlock} \<longrightarrow> t \<in> rd_lock s)"

text \<open>A published descriptor belongs to a CPU between its publication and its
  withdrawal; a CPU that has passed the test serves the published descriptor and is
  still in its mask.\<close>

definition inv_data :: "vstate \<Rightarrow> bool" where
  "inv_data s =
     (\<forall>d. vnmi_data s = Some d \<longrightarrow>
           spc s d \<in> {S_wrunlock1, S_ipi, S_wait, S_wrlock2, S_withdraw})"

definition inv_hdl :: "vstate \<Rightarrow> bool" where
  "inv_hdl s =
     (\<forall>t d. hpc s t = H_call d \<or> hpc s t = H_clear d \<longrightarrow>
             vnmi_data s = Some d \<and> t \<in> cpumask (frame s d))"

text \<open>The mask of a call only shrinks, is the requested one until the lock is held,
  loses the sender before anything is published, and is empty once the wait loop is
  left.\<close>

definition inv_mask :: "vstate \<Rightarrow> bool" where
  "inv_mask s =
     (\<forall>d. cpumask (frame s d) \<subseteq> req s d
        \<and> (spc s d \<in> {S_trylock, S_body, S_clear} \<longrightarrow> cpumask (frame s d) = req s d)
        \<and> (d \<in> cpumask (frame s d) \<longrightarrow> spc s d \<in> {S_trylock, S_body, S_clear})
        \<and> (spc s d \<in> {S_idle, S_wrlock2, S_withdraw, S_wrunlock2, S_unlock} \<longrightarrow>
             cpumask (frame s d) = {}))"

text \<open>The function of a call has run once on the targets that have cleared their bit
  or are about to, and on no other CPU.\<close>

definition inv_runs :: "vstate \<Rightarrow> bool" where
  "inv_runs s =
     (\<forall>d t. runs s d t =
        (if t \<in> req s d - {d} \<and> (t \<notin> cpumask (frame s d) \<or> hpc s t = H_clear d)
         then 1 else 0))"

text \<open>What a call has done to the slot, by the place it has reached.\<close>

definition log_at :: "spc \<Rightarrow> bool \<Rightarrow> vnmi_event list \<Rightarrow> bool" where
  "log_at p targets l =
     (case p of
        S_idle \<Rightarrow>
          l = [] \<or> l = (if targets then [Acquired, Published, IpiSent, Withdrawn, Released]
                         else [Acquired, Released])
      | S_trylock \<Rightarrow> l = []
      | S_body \<Rightarrow> l = []
      | S_clear \<Rightarrow> l = [Acquired]
      | S_wrlock1 \<Rightarrow> targets \<and> l = [Acquired]
      | S_publish \<Rightarrow> targets \<and> l = [Acquired]
      | S_wrunlock1 \<Rightarrow> targets \<and> l = [Acquired, Published]
      | S_ipi \<Rightarrow> targets \<and> l = [Acquired, Published]
      | S_wait \<Rightarrow> targets \<and> l = [Acquired, Published, IpiSent]
      | S_wrlock2 \<Rightarrow> targets \<and> l = [Acquired, Published, IpiSent]
      | S_withdraw \<Rightarrow> targets \<and> l = [Acquired, Published, IpiSent]
      | S_wrunlock2 \<Rightarrow> targets \<and> l = [Acquired, Published, IpiSent, Withdrawn]
      | S_unlock \<Rightarrow>
          l = (if targets then [Acquired, Published, IpiSent, Withdrawn] else [Acquired]))"

definition inv_log :: "vstate \<Rightarrow> bool" where
  "inv_log s = (\<forall>c. log_at (spc s c) (req s c - {c} \<noteq> {}) (call_log s c))"

definition vinv :: "vstate \<Rightarrow> bool" where
  "vinv s = (inv_lock s \<and> inv_wr s \<and> inv_rw s \<and> inv_rd s \<and> inv_data s \<and> inv_hdl s
             \<and> inv_mask s \<and> inv_runs s \<and> inv_log s)"

text \<open>
  A sample schedule on three CPUs: CPU 2 broadcasts function 7 to CPUs 0 and 1; both
  take the interrupt and serve it, CPU 1 first; CPU 2 leaves the wait loop, withdraws
  the descriptor and returns.
\<close>

definition sample_schedule :: "action list" where
  "sample_schedule =
     [ACall 2 7 42 {0, 1, 2},
      AStep 2, AStep 2, AStep 2, AStep 2, AStep 2, AStep 2,
      AIrq 1, AStep 1, AStep 1, AStep 1, AStep 1, AStep 1,
      AStep 2,
      AIrq 0, AStep 0, AStep 0, AStep 0, AStep 0, AStep 0,
      AStep 2, AStep 2, AStep 2, AStep 2, AStep 2]"


text \<open>
  A third sample: CPU 1 broadcasts function 7 to CPU 0 and waits; CPU 0 masks its
  interrupts and starts a broadcast of its own.
\<close>

definition sample_contention :: "action list" where
  "sample_contention =
     [ACall 1 7 42 {0},
      AStep 1, AStep 1, AStep 1, AStep 1, AStep 1, AStep 1,
      AMask 0 True, ACall 0 8 43 {1}]"

text \<open>
  A continuation of the third sample after the failed attempt of CPU 0 at the lock:
  CPU 0 goes through the loop body and the service routine while CPU 1 polls its mask.
\<close>

definition sample_answer :: "action list" where
  "sample_answer =
     [AStep 0, AStep 1, AStep 0, AStep 0, AStep 1, AStep 0, AStep 0, AStep 0]"

text \<open>
  A request is pending for CPU \<open>c\<close>: the published descriptor is the one of CPU \<open>d\<close>,
  with function \<open>f\<close> and argument \<open>a\<close>, and its mask holds \<open>c\<close>.
\<close>

definition targeted :: "cpu \<Rightarrow> cpu \<Rightarrow> fnptr \<Rightarrow> nat \<Rightarrow> vstate \<Rightarrow> bool" where
  "targeted c d f a s =
     (vnmi_data s = Some d \<and> c \<in> cpumask (frame s d)
      \<and> fn (frame s d) = f \<and> arg (frame s d) = a)"

text \<open>
  CPU \<open>c\<close>, after a failed attempt at the lock with its interrupts masked, is on its
  way to answer that request: it is in the loop body, or in the service routine before
  the call, or at the call; or the function has run on \<open>c\<close> since, which the log shows
  by holding more than \<open>n\<close> executions of \<open>f\<close> with \<open>a\<close> on \<open>c\<close>.
\<close>

definition answering :: "cpu \<Rightarrow> cpu \<Rightarrow> fnptr \<Rightarrow> nat \<Rightarrow> nat \<Rightarrow> vstate \<Rightarrow> bool" where
  "answering c d f a n s =
     (n \<le> count_list (fn_log s) (c, f, a)
      \<and> ((spc s c = S_body \<and> hpc s c = H_idle \<and> hw_off s c \<and> targeted c d f a s)
         \<or> (spc s c = S_trylock \<and> (hpc s c = H_rdlock \<or> hpc s c = H_test)
              \<and> targeted c d f a s)
         \<or> (spc s c = S_trylock \<and> hpc s c = H_call d
              \<and> fn (frame s d) = f \<and> arg (frame s d) = a)
         \<or> n < count_list (fn_log s) (c, f, a)))"

section \<open>Properties of the sequential code\<close>

lemmas prim_defs = hard_local_irq_save_def hard_local_irq_restore_def
  hard_local_irq_disable_def hard_local_irq_enable_def emit_def extern_def
  ipipe_root_only_def status_set_bit_def status_test_and_set_bit_def status_test_bit_def

lemma set_bit_idem: "bit (w :: u32) n \<Longrightarrow> set_bit n w = w"
  by (simp add: set_bit_eq_idem_iff)

lemma mayday_clear_not_pending: "\<not> mayday_pending E (mayday_clear E s)"
  by (simp add: mayday_pending_def mayday_clear_def and.assoc)

subsection \<open>The root stall flag\<close>

text \<open>
  Claim C7. Whatever the stall flag was, \<^verbatim>\<open>ipipe_test_and_stall_root\<close> returns its
  previous value (0 or 1) and leaves it set; the only store to the status word happens
  with the hardware interrupts masked (the log entry \<open>EvStatusWrite True\<close>), and the
  caller's hardware mask and every other field are as before.
  \<^verbatim>\<open>ipipe_test_root\<close> returns the current value of the flag and changes nothing.
  The stall flag is a bit of the 32-bit status word.
\<close>

theorem ipipe_test_and_stall_root_previous:
  assumes "IPIPE_STALL_FLAG E < 32"
  shows "fst (ipipe_test_and_stall_root E s)
           = (if bit (root_status s) (IPIPE_STALL_FLAG E) then 1 else 0)
       \<and> bit (root_status (snd (ipipe_test_and_stall_root E s))) (IPIPE_STALL_FLAG E)
       \<and> snd (ipipe_test_and_stall_root E s)
           = s\<lparr>root_status := set_bit (IPIPE_STALL_FLAG E) (root_status s),
               trace := trace s @ [EvRootOnly, EvStatusWrite True]\<rparr>
       \<and> ipipe_test_root E s
           = ((if bit (root_status s) (IPIPE_STALL_FLAG E) then 1 else 0), s)"
  using assms
  by (simp add: ipipe_test_and_stall_root_def ipipe_test_root_def prim_defs
      bit_set_bit_iff Let_def)

theorem ipipe_test_and_stall_root_witness:
  "IPIPE_STALL_FLAG sample_env < 32
   \<and> fst (ipipe_test_and_stall_root sample_env sample_state) = 0
   \<and> bit (root_status (snd (ipipe_test_and_stall_root sample_env sample_state))) 0
   \<and> ipipe_test_root sample_env sample_state = (0, sample_state)"
proof -
  have h: "IPIPE_STALL_FLAG sample_env < 32" by (simp add: sample_env_def)
  have z: "IPIPE_STALL_FLAG sample_env = 0" "root_status sample_state = 0"
    by (simp_all add: sample_env_def sample_state_def)
  from ipipe_test_and_stall_root_previous [OF h, of sample_state] h z show ?thesis
    by simp
qed

text \<open>
  Claim C8. Stalling a root domain that is already stalled is a no-op: the state after
  \<^verbatim>\<open>ipipe_stall_root\<close> is the state before it, the observation log apart; in particular
  the status word, the pending log and the hardware mask are unchanged.
\<close>

theorem ipipe_stall_root_idempotent:
  assumes "bit (root_status s) (IPIPE_STALL_FLAG E)"
  shows "ipipe_stall_root E s = s\<lparr>trace := trace s @ [EvRootOnly, EvStatusWrite True]\<rparr>
       \<and> root_status (ipipe_stall_root E s) = root_status s
       \<and> root_irqpend (ipipe_stall_root E s) = root_irqpend s
       \<and> hard_irqs_off (ipipe_stall_root E s) = hard_irqs_off s"
  using assms
  by (simp add: ipipe_stall_root_def prim_defs set_bit_idem Let_def)

theorem ipipe_stall_root_idempotent_witness:
  "bit (root_status (sample_state\<lparr>root_status := 1, root_irqpend := {5}\<rparr>))
     (IPIPE_STALL_FLAG sample_env)
   \<and> root_status (ipipe_stall_root sample_env
        (sample_state\<lparr>root_status := 1, root_irqpend := {5}\<rparr>)) = 1
   \<and> root_irqpend (ipipe_stall_root sample_env
        (sample_state\<lparr>root_status := 1, root_irqpend := {5}\<rparr>)) = {5}"
proof -
  have h: "bit (root_status (sample_state\<lparr>root_status := 1, root_irqpend := {5}\<rparr>))
             (IPIPE_STALL_FLAG sample_env)"
    by (simp add: sample_env_def)
  from ipipe_stall_root_idempotent [OF h] h show ?thesis
    by simp
qed

subsection \<open>Raising an interrupt by software\<close>

text \<open>
  Claim C4. For every interrupt number, \<^verbatim>\<open>ipipe_raise_irq\<close> calls the dispatch engine
  exactly once, with the flags \<^verbatim>\<open>IPIPE_IRQF_NOACK\<close> and with the hardware interrupts
  masked on entry; whatever the engine does to the hardware mask, the caller finds the
  mask it had before the call. The engine is entered by \<^verbatim>\<open>__ipipe_dispatch_irq\<close>, the
  entry that \<^verbatim>\<open>__ipipe_grab_irq\<close> uses for a hardware interrupt: in the words of the
  source, the interrupt is pushed at the front of the pipeline just as if it had been
  received from a hardware source.
\<close>

theorem ipipe_raise_irq_noack:
  "trace (ipipe_raise_irq E irq s) = trace s @ [EvDispatch irq (IPIPE_IRQF_NOACK E) True]
   \<and> hard_irqs_off (ipipe_raise_irq E irq s) = hard_irqs_off s
   \<and> ipipe_raise_irq E irq s
       = (dispatch_irq E irq (IPIPE_IRQF_NOACK E) (s\<lparr>hard_irqs_off := True\<rparr>))
           \<lparr>hard_irqs_off := hard_irqs_off s,
            trace := trace s @ [EvDispatch irq (IPIPE_IRQF_NOACK E) True]\<rparr>"
  by (simp add: ipipe_raise_irq_def ipipe_dispatch_irq_def prim_defs Let_def)

subsection \<open>Enabling and disabling a line without a descriptor\<close>

text \<open>
  Claim C5. Line 100 of the sample configuration has no descriptor. Enabling it changes
  nothing, but disabling it calls the registered \<^verbatim>\<open>disable_irqdesc\<close> primitive of the
  interrupt controller: \<^verbatim>\<open>__ipipe_disable_irqdesc\<close> lacks the test for a descriptor that
  \<^verbatim>\<open>__ipipe_enable_irqdesc\<close> makes.
\<close>

theorem ipipe_disable_irqdesc_unchecked:
  "irq_to_desc sample_env 100 = None
   \<and> ipipe_enable_irqdesc sample_env 0 100 sample_state = sample_state
   \<and> trace (ipipe_disable_irqdesc sample_env 0 100 sample_state) = [EvMuterDisable 4 100]"
  by (simp add: ipipe_enable_irqdesc_def ipipe_disable_irqdesc_def sample_env_def
      sample_state_def prim_defs)

subsection \<open>Interrupt affinity\<close>



subsection \<open>The register snapshot of the timer tick\<close>

text \<open>
  Claim C10, as stated, fails: while no timer interrupt is registered
  (\<^verbatim>\<open>hrtimer_irq == -1\<close>) every interrupt, here line 5, updates the snapshot.
\<close>

theorem grab_irq_entry_unregistered_counterexample:
  "hrtimer_irq (sample_state\<lparr>hrtimer_irq := - 1\<rparr>) \<noteq> 5
   \<and> tick_regs (grab_irq_entry sample_env 5 (sample_state\<lparr>hrtimer_irq := - 1\<rparr>))
       \<noteq> tick_regs (sample_state\<lparr>hrtimer_irq := - 1\<rparr>)
   \<and> tick_regs (ipipe_grab_irq sample_env 5 (sample_state\<lparr>hrtimer_irq := - 1\<rparr>))
       \<noteq> tick_regs (sample_state\<lparr>hrtimer_irq := - 1\<rparr>)"
  by (simp add: ipipe_grab_irq_def grab_irq_entry_def copy_regs_def ipipe_dispatch_irq_def
      ipipe_exit_irq_def mayday_pending_def prim_defs Let_def sample_env_def
      sample_state_def sample_regs_def)

text \<open>
  Claim C10, amended. The entry path of \<^verbatim>\<open>__ipipe_grab_irq\<close> writes the status register
  and the program counter of the interrupted context into the snapshot if and only if
  the interrupt is the timer interrupt of the CPU or no timer interrupt is registered
  (\<^verbatim>\<open>hrtimer_irq == -1\<close>); otherwise it leaves the snapshot unchanged.
\<close>

theorem grab_irq_entry_tick_regs:
  "tick_regs (grab_irq_entry E irq s) =
     (if hrtimer_irq s = - 1 \<or> irq = hrtimer_irq s
      then (tick_regs s)
             \<lparr>ARM_cpsr := (if curr_is_root s then ARM_cpsr (regs s)
                           else ARM_cpsr (regs s) OR PSR_I_BIT E),
              ARM_pc := ARM_pc (regs s)\<rparr>
      else tick_regs s)"
  by (simp add: grab_irq_entry_def copy_regs_def prim_defs Let_def)

subsection \<open>The mayday flag\<close>

text \<open>
  Claim C6, as stated, fails: a syscall that is not watched leaves
  \<^verbatim>\<open>__ipipe_syscall_root\<close> by the fast path, which does not look at the mayday flag. The
  flag is still set when the function returns 0, and no trap has been notified.
\<close>

theorem unwatched_syscall_keeps_mayday_counterexample:
  "mayday_pending sample_env (sample_state\<lparr>task_flags := 1\<rparr>)
   \<and> \<not> syscall_watched_p sample_env (NR_SYSCALL_BASE sample_env + 1)
         (sample_state\<lparr>task_flags := 1\<rparr>)
   \<and> mayday_pending sample_env
       (snd (ipipe_syscall_root sample_env 1 (sample_state\<lparr>task_flags := 1\<rparr>)))
   \<and> trace (snd (ipipe_syscall_root sample_env 1 (sample_state\<lparr>task_flags := 1\<rparr>))) = []
   \<and> fst (ipipe_syscall_root sample_env 1 (sample_state\<lparr>task_flags := 1\<rparr>)) = 0"
  by (simp add: ipipe_syscall_root_def WARN_ON_ONCE_def mayday_pending_def prim_defs Let_def
      sample_env_def sample_state_def sample_regs_def)

text \<open>
  Claim C6, amended. At the exit of an interrupt taken from user mode, a set mayday flag
  is cleared and the mayday trap is notified, the flag being clear when the notification
  is delivered; otherwise \<^verbatim>\<open>__ipipe_exit_irq\<close> does nothing. A watched syscall makes the
  same clear-and-notify after the notification of the syscall, without the test for user
  mode, and before the pending root interrupts are synchronised. A syscall that is not
  watched makes no such check: apart from the warning at its entry it leaves the state
  as it found it.
\<close>

theorem mayday_checkpoints:
  "ipipe_exit_irq E s =
     (if user_mode E (regs s) \<and> mayday_pending E s
      then (notify_trap E (IPIPE_TRAP_MAYDAY E) (mayday_clear E s))
             \<lparr>trace := trace s
                @ [EvNotifyTrap (IPIPE_TRAP_MAYDAY E) (task_flags (mayday_clear E s))]\<rparr>
      else s)
   \<and> \<not> mayday_pending E (mayday_clear E s)
   \<and> (let s0 = snd (WARN_ON_ONCE 2 (hard_irqs_off s) s);
           s1 = s0\<lparr>regs := (regs s0)\<lparr>ARM_r7 := NR_SYSCALL_BASE E + scno\<rparr>\<rparr>;
           s3 = hard_local_irq_disable (snd (ipipe_notify_syscall E s1));
           s4 = (if mayday_pending E s3
                 then ipipe_notify_trap E (IPIPE_TRAP_MAYDAY E) (mayday_clear E s3) else s3);
           s' = snd (ipipe_syscall_root E scno s)
       in if syscall_watched_p E (NR_SYSCALL_BASE E + scno) s1
          then trace s' =
                 trace s0 @ [EvNotifySyscall]
                 @ (if mayday_pending E s3
                    then [EvNotifyTrap (IPIPE_TRAP_MAYDAY E) (task_flags (mayday_clear E s3))]
                    else [])
                 @ (if curr_is_root s4 \<and> root_irqpend s4 \<noteq> {} then [EvSyncStage] else [])
          else s' = s0)"
  apply (intro conjI)
    apply (simp add: ipipe_exit_irq_def ipipe_notify_trap_def prim_defs mayday_clear_def)
   apply (rule mayday_clear_not_pending)
  apply (simp add: ipipe_syscall_root_def ipipe_notify_syscall_def ipipe_notify_trap_def
      ipipe_sync_stage_def prim_defs mayday_clear_def Let_def split: prod.splits)
  done

section \<open>Properties of the broadcast\<close>

subsection \<open>The invariant holds in every reachable state\<close>

lemmas step_defs = cpu_step_def ipipe_do_vnmi_def ipipe_send_vnmi_def

lemma holds_lock_simps [simp]:
  "holds_lock S_idle = False" "holds_lock S_trylock = False" "holds_lock S_body = False"
  "holds_lock S_clear" "holds_lock S_wrlock1" "holds_lock S_publish" "holds_lock S_wrunlock1"
  "holds_lock S_ipi" "holds_lock S_wait" "holds_lock S_wrlock2" "holds_lock S_withdraw"
  "holds_lock S_wrunlock2" "holds_lock S_unlock"
  by (simp_all add: holds_lock_def)


text \<open>Each invariant is kept by every action of the broadcast\<dots>\<close>

lemma inv_lock_send:
  assumes "inv_lock s" "hpc s c = H_idle"
  shows "inv_lock (ipipe_send_vnmi c s)"
  unfolding inv_lock_def
  apply (intro allI)
  subgoal for d
    using assms(1)[unfolded inv_lock_def, THEN spec, of d]
      assms(1)[unfolded inv_lock_def, THEN spec, of c]
      assms(2)
    by (cases "spc s c"; cases "d = c"; simp add: ipipe_send_vnmi_def Let_def split: option.splits; auto?)
  done

lemma inv_wr_send:
  assumes "inv_wr s" "hpc s c = H_idle"
  shows "inv_wr (ipipe_send_vnmi c s)"
  unfolding inv_wr_def
  apply (intro allI)
  subgoal for d
    using assms(1)[unfolded inv_wr_def, THEN spec, of d]
      assms(1)[unfolded inv_wr_def, THEN spec, of c]
      assms(2)
    by (cases "spc s c"; cases "d = c"; simp add: ipipe_send_vnmi_def Let_def split: option.splits; auto?)
  done

lemma inv_rw_send:
  assumes "inv_rw s" "hpc s c = H_idle"
  shows "inv_rw (ipipe_send_vnmi c s)"
  unfolding inv_rw_def
  using assms(1)[unfolded inv_rw_def]
    assms(2)
  by (cases "spc s c"; simp add: ipipe_send_vnmi_def Let_def split: option.splits; auto?)

lemma inv_rd_send:
  assumes "inv_rd s" "inv_rw s" "hpc s c = H_idle"
  shows "inv_rd (ipipe_send_vnmi c s)"
  unfolding inv_rd_def
  apply (intro allI)
  subgoal for t
    using assms(1)[unfolded inv_rd_def, THEN spec, of t]
      assms(2)[unfolded inv_rw_def]
      assms(3)
    by (cases "spc s c"; cases "t = c"; simp add: ipipe_send_vnmi_def Let_def split: option.splits; auto?)
  done

lemma inv_data_send:
  assumes "inv_data s" "hpc s c = H_idle"
  shows "inv_data (ipipe_send_vnmi c s)"
  unfolding inv_data_def
  apply (intro allI)
  subgoal for d
    using assms(1)[unfolded inv_data_def, THEN spec, of d]
      assms(1)[unfolded inv_data_def, THEN spec, of c]
      assms(2)
    by (cases "spc s c"; cases "d = c"; simp add: ipipe_send_vnmi_def Let_def split: option.splits; auto?)
  done

lemma inv_hdl_send:
  assumes "inv_hdl s" "inv_rd s" "inv_rw s" "inv_wr s" "hpc s c = H_idle"
  shows "inv_hdl (ipipe_send_vnmi c s)"
  unfolding inv_hdl_def
  apply (intro allI)
  subgoal for t d
    using assms(1)[unfolded inv_hdl_def, THEN spec, of t, THEN spec, of d]
      assms(2)[unfolded inv_rd_def, THEN spec, of t]
      assms(3)[unfolded inv_rw_def]
      assms(4)[unfolded inv_wr_def, THEN spec, of c]
      assms(5)
    by (cases "spc s c"; cases "t = c"; cases "d = c"; simp add: ipipe_send_vnmi_def Let_def split: option.splits; auto?)
  done

lemma inv_mask_send:
  assumes "inv_mask s" "inv_hdl s" "inv_data s" "hpc s c = H_idle"
  shows "inv_mask (ipipe_send_vnmi c s)"
  unfolding inv_mask_def
  apply (intro allI)
  subgoal for d
    using assms(1)[unfolded inv_mask_def, THEN spec, of d]
      assms(2)[unfolded inv_hdl_def, THEN spec, of c, THEN spec, of d]
      assms(3)[unfolded inv_data_def, THEN spec, of d]
      assms(4)
    by (cases "spc s c"; cases "d = c"; simp add: ipipe_send_vnmi_def Let_def split: option.splits; auto?)
  done

lemma inv_runs_send:
  assumes "inv_runs s" "hpc s c = H_idle"
  shows "inv_runs (ipipe_send_vnmi c s)"
  unfolding inv_runs_def
  apply (intro allI)
  subgoal for d t
    using assms(1)[unfolded inv_runs_def, THEN spec, THEN spec, of d t] assms(2)
    by (cases "spc s c"; cases "d = c"; cases "t = c";
        simp add: ipipe_send_vnmi_def Let_def split: option.splits)
  done

lemma inv_log_send:
  assumes "inv_log s" "inv_mask s" "hpc s c = H_idle"
  shows "inv_log (ipipe_send_vnmi c s)"
  unfolding inv_log_def
  apply (intro allI)
  subgoal for d
    using assms(1)[unfolded inv_log_def, THEN spec, of d]
      assms(2)[unfolded inv_mask_def, THEN spec, of d]
      assms(3)
    by (cases "spc s c"; cases "d = c"; simp add: ipipe_send_vnmi_def Let_def split: option.splits; (simp add: log_at_def)?; auto?)
  done

text \<open>\<dots> and by every action of the service routine.\<close>

lemma inv_lock_do:
  assumes "inv_lock s"
  shows "inv_lock (ipipe_do_vnmi c s)"
  unfolding inv_lock_def
  apply (intro allI)
  subgoal for d
    using assms(1)[unfolded inv_lock_def, THEN spec, of d]
      assms(1)[unfolded inv_lock_def, THEN spec, of c]
    by (cases "hpc s c"; cases "d = c"; simp add: ipipe_do_vnmi_def Let_def split: option.splits; auto?)
  done

lemma inv_wr_do:
  assumes "inv_wr s"
  shows "inv_wr (ipipe_do_vnmi c s)"
  unfolding inv_wr_def
  apply (intro allI)
  subgoal for d
    using assms(1)[unfolded inv_wr_def, THEN spec, of d]
      assms(1)[unfolded inv_wr_def, THEN spec, of c]
    by (cases "hpc s c"; cases "d = c"; simp add: ipipe_do_vnmi_def Let_def split: option.splits; auto?)
  done

lemma inv_rw_do:
  assumes "inv_rw s"
  shows "inv_rw (ipipe_do_vnmi c s)"
  unfolding inv_rw_def
  using assms(1)[unfolded inv_rw_def]
  by (cases "hpc s c"; simp add: ipipe_do_vnmi_def Let_def split: option.splits; auto?)

lemma inv_rd_do:
  assumes "inv_rd s" "inv_rw s"
  shows "inv_rd (ipipe_do_vnmi c s)"
  unfolding inv_rd_def
  apply (intro allI)
  subgoal for t
    using assms(1)[unfolded inv_rd_def, THEN spec, of t]
      assms(2)[unfolded inv_rw_def]
    by (cases "hpc s c"; cases "t = c"; simp add: ipipe_do_vnmi_def Let_def split: option.splits; auto?)
  done

lemma inv_data_do:
  assumes "inv_data s"
  shows "inv_data (ipipe_do_vnmi c s)"
  unfolding inv_data_def
  apply (intro allI)
  subgoal for d
    using assms(1)[unfolded inv_data_def, THEN spec, of d]
      assms(1)[unfolded inv_data_def, THEN spec, of c]
    by (cases "hpc s c"; cases "d = c"; simp add: ipipe_do_vnmi_def Let_def split: option.splits; auto?)
  done

lemma inv_hdl_do:
  assumes "inv_hdl s"
  shows "inv_hdl (ipipe_do_vnmi c s)"
proof -
  have I: "\<And>t d. hpc s t = H_call d \<or> hpc s t = H_clear d \<Longrightarrow>
             vnmi_data s = Some d \<and> t \<in> cpumask (frame s d)"
    using assms unfolding inv_hdl_def by blast
  show ?thesis
  proof (cases "hpc s c")
    case H_idle
    then show ?thesis using assms by (simp add: ipipe_do_vnmi_def)
  next
    case H_rdlock
    then show ?thesis using I by (auto simp add: ipipe_do_vnmi_def inv_hdl_def)
  next
    case H_test
    then show ?thesis using I
      by (cases "vnmi_data s") (auto simp add: ipipe_do_vnmi_def inv_hdl_def)
  next
    case (H_call x)
    then show ?thesis using I I[of c x] by (auto simp add: ipipe_do_vnmi_def inv_hdl_def)
  next
    case (H_clear x)
    then show ?thesis using I by (auto simp add: ipipe_do_vnmi_def inv_hdl_def)
  next
    case H_rdunlock
    then show ?thesis using I by (auto simp add: ipipe_do_vnmi_def inv_hdl_def)
  qed
qed

lemma inv_mask_do:
  assumes "inv_mask s" "inv_hdl s" "inv_data s"
  shows "inv_mask (ipipe_do_vnmi c s)"
proof (cases "hpc s c")
  case (H_clear x)
  have hx: "vnmi_data s = Some x \<and> c \<in> cpumask (frame s x)"
    using assms(2)[unfolded inv_hdl_def, THEN spec, THEN spec, of c x] H_clear by simp
  have px: "spc s x \<in> {S_wrunlock1, S_ipi, S_wait, S_wrlock2, S_withdraw}"
    using assms(3)[unfolded inv_data_def, THEN spec, of x] hx by simp
  show ?thesis
    unfolding inv_mask_def
    apply (intro allI)
    subgoal for d
      using assms(1)[unfolded inv_mask_def, THEN spec, of d] H_clear px
      apply (cases "d = x")
       apply (cases "spc s x"; simp add: ipipe_do_vnmi_def; blast)
      apply (simp add: ipipe_do_vnmi_def)
      done
    done
next
  case H_idle
  then show ?thesis using assms(1) by (simp add: ipipe_do_vnmi_def)
next
  case H_rdlock
  then show ?thesis using assms(1) by (simp add: ipipe_do_vnmi_def inv_mask_def)
next
  case H_test
  then show ?thesis using assms(1) by (simp add: ipipe_do_vnmi_def inv_mask_def split: option.splits)
next
  case (H_call x)
  then show ?thesis using assms(1) by (simp add: ipipe_do_vnmi_def inv_mask_def)
next
  case H_rdunlock
  then show ?thesis using assms(1) by (simp add: ipipe_do_vnmi_def inv_mask_def)
qed

lemma inv_runs_do:
  assumes "inv_runs s" "inv_hdl s" "inv_mask s" "inv_data s"
  shows "inv_runs (ipipe_do_vnmi c s)"
proof -
  have R: "\<And>d t. runs s d t =
        (if t \<in> req s d - {d} \<and> (t \<notin> cpumask (frame s d) \<or> hpc s t = H_clear d)
         then 1 else 0)"
    using assms(1) by (simp add: inv_runs_def)
  show ?thesis
  proof (cases "hpc s c")
    case H_idle
    then show ?thesis using assms(1) by (simp add: ipipe_do_vnmi_def)
  next
    case H_rdlock
    then show ?thesis using R by (simp add: ipipe_do_vnmi_def inv_runs_def)
  next
    case H_test
    then show ?thesis using R
      by (cases "vnmi_data s") (simp_all add: ipipe_do_vnmi_def inv_runs_def)
  next
    case H_rdunlock
    then show ?thesis using R by (simp add: ipipe_do_vnmi_def inv_runs_def)
  next
    case (H_clear x)
    show ?thesis
      unfolding inv_runs_def
      apply (intro allI)
      subgoal for d t
        using R[of d t] H_clear
        by (cases "d = x"; cases "t = c"; simp add: ipipe_do_vnmi_def)
      done
  next
    case (H_call x)
    have hx: "vnmi_data s = Some x" "c \<in> cpumask (frame s x)"
      using assms(2)[unfolded inv_hdl_def, THEN spec, THEN spec, of c x] H_call by simp_all
    have px: "spc s x \<in> {S_wrunlock1, S_ipi, S_wait, S_wrlock2, S_withdraw}"
      using assms(4)[unfolded inv_data_def, THEN spec, of x] hx by simp
    have M: "cpumask (frame s x) \<subseteq> req s x"
      "x \<in> cpumask (frame s x) \<longrightarrow> spc s x \<in> {S_trylock, S_body, S_clear}"
      using assms(3)[unfolded inv_mask_def, THEN spec, of x] by simp_all
    have c1: "c \<in> req s x" using M(1) hx(2) by blast
    have c2: "c \<noteq> x" using M(2) px hx(2) by (cases "spc s x"; simp; blast)
    have r0: "runs s x c = 0" using R[of x c] hx(2) H_call by simp
    show ?thesis
      unfolding inv_runs_def
      apply (intro allI)
      subgoal for d t
        using R[of d t] H_call hx(2) c1 c2 r0
        by (cases "d = x"; cases "t = c"; simp add: ipipe_do_vnmi_def)
      done
  qed
qed

lemma inv_log_do:
  assumes "inv_log s" "inv_mask s"
  shows "inv_log (ipipe_do_vnmi c s)"
  unfolding inv_log_def
  apply (intro allI)
  subgoal for d
    using assms(1)[unfolded inv_log_def, THEN spec, of d]
      assms(2)[unfolded inv_mask_def, THEN spec, of d]
    by (cases "hpc s c"; cases "d = c"; simp add: ipipe_do_vnmi_def Let_def split: option.splits; (simp add: log_at_def)?; auto?)
  done


text \<open>Hence every move of a schedule keeps the invariant, which holds at boot.\<close>

lemma vinv_cpu_step:
  assumes "vinv s"
  shows "vinv (cpu_step c s)"
proof (cases "hpc s c = H_idle")
  case True
  then show ?thesis
    using assms unfolding vinv_def cpu_step_def
    by (simp add: inv_lock_send inv_wr_send inv_rw_send inv_rd_send inv_data_send
        inv_hdl_send inv_mask_send inv_runs_send inv_log_send)
next
  case False
  then show ?thesis
    using assms unfolding vinv_def cpu_step_def
    by (simp add: inv_lock_do inv_wr_do inv_rw_do inv_rd_do inv_data_do
        inv_hdl_do inv_mask_do inv_runs_do inv_log_do)
qed

lemma log_at_trylock: "log_at S_trylock b []"
  by (simp add: log_at_def)

lemma vinv_call:
  assumes "vinv s" "spc s c = S_idle" "hpc s c = H_idle"
  shows "vinv (s\<lparr>frame := (frame s)(c := \<lparr>fn = f, arg = x, cpumask = m\<rparr>),
                 req := (req s)(c := m),
                 runs := (runs s)(c := (\<lambda>t. 0)),
                 call_log := (call_log s)(c := []),
                 spc := (spc s)(c := S_trylock)\<rparr>)"
proof -
  have nd: "vnmi_data s \<noteq> Some c"
    using assms(1,2) by (auto simp add: vinv_def inv_data_def)
  have nh: "\<And>t. hpc s t \<noteq> H_call c \<and> hpc s t \<noteq> H_clear c"
    using assms(1) nd unfolding vinv_def inv_hdl_def by blast
  have "inv_lock s" "inv_wr s" "inv_rw s" "inv_rd s" "inv_data s" "inv_hdl s"
    "inv_mask s" "inv_runs s" "inv_log s"
    using assms(1) by (simp_all add: vinv_def)
  then show ?thesis
    unfolding vinv_def
    apply (intro conjI)
            apply (simp add: inv_lock_def)
           apply (simp add: inv_wr_def)
          apply (simp add: inv_rw_def)
         apply (simp add: inv_rd_def)
        apply (use nd in \<open>simp add: inv_data_def\<close>)
       apply (use nh in \<open>simp add: inv_hdl_def\<close>)
      apply (simp add: inv_mask_def)
     apply (use nh in \<open>simp add: inv_runs_def\<close>)
    apply (simp add: inv_log_def log_at_trylock)
    done
qed

lemma vinv_irq:
  assumes "vinv s" "hpc s c = H_idle"
  shows "vinv (s\<lparr>ipi_pending := ipi_pending s - {c},
                 hw_off := (hw_off s)(c := True),
                 in_irq := (in_irq s)(c := True),
                 hpc := (hpc s)(c := H_rdlock)\<rparr>)"
proof -
  have "inv_lock s" "inv_wr s" "inv_rw s" "inv_rd s" "inv_data s" "inv_hdl s"
    "inv_mask s" "inv_runs s" "inv_log s"
    using assms(1) by (simp_all add: vinv_def)
  then show ?thesis
    unfolding vinv_def
    apply (intro conjI)
            apply (simp add: inv_lock_def)
           apply (simp add: inv_wr_def)
          apply (simp add: inv_rw_def)
         apply (simp add: inv_rd_def)
        apply (simp add: inv_data_def)
       apply (use assms(2) in \<open>simp add: inv_hdl_def\<close>)
      apply (simp add: inv_mask_def)
     apply (use assms(2) in \<open>simp add: inv_runs_def\<close>)
    apply (simp add: inv_log_def)
    done
qed

lemma vinv_mask:
  assumes "vinv s"
  shows "vinv (s\<lparr>hw_off := h\<rparr>)"
  using assms
  by (simp add: vinv_def inv_lock_def inv_wr_def inv_rw_def inv_rd_def inv_data_def
      inv_hdl_def inv_mask_def inv_runs_def inv_log_def)

lemma vinv_act:
  assumes "vinv s"
  shows "vinv (act a s)"
  using assms
  by (cases a) (simp_all add: act_def vinv_cpu_step vinv_call vinv_irq vinv_mask)

lemma vinv_exec: "vinv s \<Longrightarrow> vinv (exec as s)"
  by (induction as arbitrary: s) (simp_all add: vinv_act)

lemma vinv_boot: "vinv vnmi_boot"
  by (simp add: vinv_def vnmi_boot_def inv_lock_def inv_wr_def inv_rw_def inv_rd_def
      inv_data_def inv_hdl_def inv_mask_def inv_runs_def inv_log_def log_at_def)

lemma vinv_reachable: "vinv (exec as vnmi_boot)"
  by (rule vinv_exec [OF vinv_boot])

subsection \<open>Every target runs the function exactly once\<close>

text \<open>
  Claim C1. Take any schedule from boot and any CPU \<open>c\<close>. The function that \<open>c\<close>
  broadcasts never runs on \<open>c\<close> itself, never runs twice on a CPU and never runs on a
  CPU outside the requested mask; \<open>c\<close> is out of its own mask from the moment it asks
  for the writer lock, so before the descriptor is published and before the interrupt is
  sent. Whenever \<open>c\<close> is outside \<^verbatim>\<open>__ipipe_send_vnmi\<close>, that is once its call has
  returned, the function of that call has run exactly once on every CPU of the mask
  other than \<open>c\<close> and on no other CPU, and every target has cleared its bit: the mask
  is empty.
\<close>

theorem vnmi_broadcast_exactly_once:
  assumes "s = exec as vnmi_boot"
  shows "runs s c c = 0
       \<and> (\<forall>t. runs s c t \<le> 1)
       \<and> (\<forall>t. t \<notin> req s c \<longrightarrow> runs s c t = 0)
       \<and> (spc s c \<in> {S_wrlock1, S_publish, S_wrunlock1, S_ipi, S_wait} \<longrightarrow>
            c \<notin> cpumask (frame s c))
       \<and> (spc s c = S_idle \<longrightarrow>
            (\<forall>t. runs s c t = (if t \<in> req s c - {c} then 1 else 0))
            \<and> cpumask (frame s c) = {})"
proof -
  have V: "vinv s" using assms by (simp add: vinv_reachable)
  have R: "\<And>t. runs s c t =
        (if t \<in> req s c - {c} \<and> (t \<notin> cpumask (frame s c) \<or> hpc s t = H_clear c)
         then 1 else 0)"
    using V by (simp add: vinv_def inv_runs_def)
  have M: "c \<in> cpumask (frame s c) \<longrightarrow> spc s c \<in> {S_trylock, S_body, S_clear}"
    "spc s c \<in> {S_idle, S_wrlock2, S_withdraw, S_wrunlock2, S_unlock} \<longrightarrow>
       cpumask (frame s c) = {}"
    using V[unfolded vinv_def inv_mask_def] by blast+
  have 1: "runs s c c = 0" using R[of c] by simp
  have 2: "\<forall>t. runs s c t \<le> 1" using R by simp
  have 3: "\<forall>t. t \<notin> req s c \<longrightarrow> runs s c t = 0" using R by simp
  have 4: "spc s c \<in> {S_wrlock1, S_publish, S_wrunlock1, S_ipi, S_wait} \<longrightarrow>
            c \<notin> cpumask (frame s c)"
    using M(1) by (cases "spc s c") simp_all
  have 5: "spc s c = S_idle \<longrightarrow>
            (\<forall>t. runs s c t = (if t \<in> req s c - {c} then 1 else 0))
            \<and> cpumask (frame s c) = {}"
  proof
    assume i: "spc s c = S_idle"
    then have e: "cpumask (frame s c) = {}" using M(2) by simp
    show "(\<forall>t. runs s c t = (if t \<in> req s c - {c} then 1 else 0))
            \<and> cpumask (frame s c) = {}"
      using R e by simp
  qed
  from 1 2 3 4 5 show ?thesis by blast
qed

theorem vnmi_broadcast_exactly_once_witness:
  "spc (exec sample_schedule vnmi_boot) 2 = S_idle
   \<and> req (exec sample_schedule vnmi_boot) 2 = {0, 1, 2}
   \<and> runs (exec sample_schedule vnmi_boot) 2 0 = 1
   \<and> runs (exec sample_schedule vnmi_boot) 2 1 = 1
   \<and> runs (exec sample_schedule vnmi_boot) 2 2 = 0
   \<and> cpumask (frame (exec sample_schedule vnmi_boot) 2) = {}"
proof -
  have i: "spc (exec sample_schedule vnmi_boot) 2 = S_idle" by code_simp
  have r: "req (exec sample_schedule vnmi_boot) 2 = {0, 1, 2}" by code_simp
  from vnmi_broadcast_exactly_once [OF refl, of sample_schedule 2] i r show ?thesis
    by simp
qed

subsection \<open>A CPU that waits for the lock with its interrupts masked serves requests\<close>

text \<open>
  The moves of the other CPUs change neither the place of a CPU in its code nor its
  interrupt mask; no move changes the function and the argument of a descriptor in use,
  and the log of executions only grows.
\<close>

lemma step_local:
  assumes "c' \<noteq> c"
  shows "spc (cpu_step c' s) c = spc s c \<and> hpc (cpu_step c' s) c = hpc s c
       \<and> hw_off (cpu_step c' s) c = hw_off s c"
  using assms
  by (cases "hpc s c'"; cases "spc s c'"; simp add: step_defs Let_def split: option.splits)

lemma step_fn_arg:
  "fn (frame (cpu_step c' s) d) = fn (frame s d) \<and> arg (frame (cpu_step c' s) d) = arg (frame s d)"
  by (cases "hpc s c'"; cases "spc s c'"; simp add: step_defs Let_def split: option.splits)

lemma step_log_mono:
  "count_list (fn_log s) x \<le> count_list (fn_log (cpu_step c' s)) x"
  by (cases "hpc s c'"; cases "spc s c'"; simp add: step_defs Let_def split: option.splits)




lemma targeted_other:
  assumes "vinv s" "c' \<noteq> c" "targeted c d f a s"
  shows "targeted c d f a (cpu_step c' s)"
proof -
  have dat: "vnmi_data s = Some d" and msk: "c \<in> cpumask (frame s d)"
    and fa: "fn (frame s d) = f" "arg (frame s d) = a"
    using assms(3) by (simp_all add: targeted_def)
  have pd: "spc s d \<in> {S_wrunlock1, S_ipi, S_wait, S_wrlock2, S_withdraw}"
    using assms(1) dat by (simp add: vinv_def inv_data_def)
  have me: "spc s d \<in> {S_idle, S_wrlock2, S_withdraw, S_wrunlock2, S_unlock} \<longrightarrow>
              cpumask (frame s d) = {}"
    using assms(1)[unfolded vinv_def inv_mask_def] by blast
  have pd': "spc s d = S_wrunlock1 \<or> spc s d = S_ipi \<or> spc s d = S_wait"
    using pd me msk by (cases "spc s d") auto
  have ld: "vnmi_lock s = Some d"
    using assms(1) pd' by (auto simp add: vinv_def inv_lock_def)
  have lc: "holds_lock (spc s c') \<longrightarrow> c' = d"
    using assms(1) ld by (auto simp add: vinv_def inv_lock_def)
  show ?thesis
  proof (cases "hpc s c' = H_idle")
    case False
    then show ?thesis
      using dat msk fa assms(2)
      by (cases "hpc s c'") (auto simp add: targeted_def step_defs split: option.splits)
  next
    case True
    show ?thesis
    proof (cases "c' = d")
      case False
      then have "\<not> holds_lock (spc s c')" using lc by simp
      then show ?thesis
        using True dat msk fa ld
        by (cases "spc s c'") (simp_all add: targeted_def step_defs)
    next
      case d: True
      from pd' show ?thesis
        using True d dat msk fa
        by (elim disjE) (auto simp add: targeted_def step_defs)
    qed
  qed
qed




lemma answering_other:
  assumes "vinv s" "answering c d f a n s" "c' \<noteq> c"
  shows "answering c d f a n (cpu_step c' s)"
proof -
  note L = step_local[OF assms(3), of s] step_fn_arg[of c' s d]
  have M: "count_list (fn_log s) (c, f, a) \<le> count_list (fn_log (cpu_step c' s)) (c, f, a)"
    by (rule step_log_mono)
  have T: "targeted c d f a s \<Longrightarrow> targeted c d f a (cpu_step c' s)"
    by (rule targeted_other[OF assms(1) assms(3)])
  from assms(2) have n: "n \<le> count_list (fn_log s) (c, f, a)"
    by (simp add: answering_def)
  from assms(2) consider
      (a) "spc s c = S_body" "hpc s c = H_idle" "hw_off s c" "targeted c d f a s"
    | (b) "spc s c = S_trylock" "hpc s c = H_rdlock \<or> hpc s c = H_test" "targeted c d f a s"
    | (c) "spc s c = S_trylock" "hpc s c = H_call d" "fn (frame s d) = f" "arg (frame s d) = a"
    | (d) "n < count_list (fn_log s) (c, f, a)"
    unfolding answering_def by blast
  then show ?thesis
  proof cases
    case a
    then show ?thesis using L M T n by (simp add: answering_def)
  next
    case b
    then show ?thesis using L M T n by (simp add: answering_def)
  next
    case c
    then show ?thesis using L M n by (simp add: answering_def)
  next
    case d
    then show ?thesis using M by (simp add: answering_def)
  qed
qed

lemma answering_self:
  assumes "answering c d f a n s"
  shows "answering c d f a n (cpu_step c s)"
proof -
  from assms have n: "n \<le> count_list (fn_log s) (c, f, a)"
    by (simp add: answering_def)
  from assms consider
      (a) "spc s c = S_body" "hpc s c = H_idle" "hw_off s c" "targeted c d f a s"
    | (b1) "spc s c = S_trylock" "hpc s c = H_rdlock" "targeted c d f a s"
    | (b2) "spc s c = S_trylock" "hpc s c = H_test" "targeted c d f a s"
    | (c) "spc s c = S_trylock" "hpc s c = H_call d" "fn (frame s d) = f" "arg (frame s d) = a"
    | (d) "n < count_list (fn_log s) (c, f, a)"
    unfolding answering_def by blast
  then show ?thesis
  proof cases
    case a
    then show ?thesis using n by (simp add: answering_def targeted_def step_defs)
  next
    case b1
    then show ?thesis using n by (simp add: answering_def targeted_def step_defs)
  next
    case b2
    then show ?thesis using n by (simp add: answering_def targeted_def step_defs)
  next
    case c
    then show ?thesis using n by (simp add: answering_def targeted_def step_defs)
  next
    case d
    then show ?thesis using step_log_mono[of s "(c, f, a)" c] by (simp add: answering_def)
  qed
qed



lemma answering_act:
  assumes "vinv s" "answering c d f a n s"
  shows "answering c d f a n (act b s)"
proof -
  have D: "\<And>e. vnmi_data s = Some e \<Longrightarrow> spc s e \<noteq> S_idle"
    using assms(1) by (auto simp add: vinv_def inv_data_def)
  have H: "hpc s c = H_call d \<Longrightarrow> vnmi_data s = Some d"
    using assms(1) by (auto simp add: vinv_def inv_hdl_def)
  show ?thesis
  proof (cases b)
    case (AStep c')
    then show ?thesis
      using answering_self[OF assms(2)] answering_other[OF assms]
      by (cases "c' = c") (simp_all add: act_def)
  next
    case (ACall c' f' x m)
    show ?thesis
    proof (cases "spc s c' = S_idle \<and> hpc s c' = H_idle")
      case False
      then show ?thesis using assms(2) ACall by (auto simp add: act_def)
    next
      case True
      from assms(2) consider
          (a) "spc s c = S_body" "hpc s c = H_idle" "hw_off s c" "targeted c d f a s"
        | (b) "spc s c = S_trylock" "hpc s c = H_rdlock \<or> hpc s c = H_test" "targeted c d f a s"
        | (c) "spc s c = S_trylock" "hpc s c = H_call d" "fn (frame s d) = f" "arg (frame s d) = a"
        | (d) "n < count_list (fn_log s) (c, f, a)"
        unfolding answering_def by blast
      then show ?thesis
      proof cases
        case a
        then have "c' \<noteq> c" "c' \<noteq> d" using True D[of d] by (auto simp add: targeted_def)
        then show ?thesis using a assms(2) ACall True
          by (simp add: act_def answering_def targeted_def)
      next
        case b
        then have "c' \<noteq> c" "c' \<noteq> d" using True D[of d] by (auto simp add: targeted_def)
        then show ?thesis using b assms(2) ACall True
          by (simp add: act_def answering_def targeted_def)
      next
        case c
        then have "c' \<noteq> c" "c' \<noteq> d" using True D[of d] H by auto
        then show ?thesis using c assms(2) ACall True
          by (simp add: act_def answering_def targeted_def)
      next
        case d
        then show ?thesis using ACall by (simp add: act_def answering_def)
      qed
    qed
  next
    case (AIrq c')
    from assms(2) show ?thesis
      unfolding answering_def AIrq
      by (cases "c' = c") (auto simp add: act_def targeted_def)
  next
    case (AMask c' v)
    from assms(2) show ?thesis
      unfolding answering_def AMask
      by (cases "c' = c") (auto simp add: act_def targeted_def)
  qed
qed

lemma answering_exec:
  "vinv s \<Longrightarrow> answering c d f a n s \<Longrightarrow> answering c d f a n (exec bs s)"
  by (induction bs arbitrary: s) (simp_all add: answering_act vinv_act)

lemma answering_back:
  assumes "answering c d f a n s" "spc s c = S_trylock" "hpc s c = H_idle"
  shows "n < count_list (fn_log s) (c, f, a)"
  using assms by (auto simp add: answering_def)

text \<open>
  Claim C2. Let CPU \<open>c\<close> stand at the \<^verbatim>\<open>spin_trylock_irqsave\<close> of the loop while another
  CPU holds the broadcast lock. Its attempt fails and leads into the loop body. With
  the hardware interrupts masked, the body calls the service routine; with the
  interrupts unmasked it calls nothing and the two moves leave the state as it was.
  If a descriptor is published whose mask holds \<open>c\<close>, then, left alone (and no writer
  holding the data lock), \<open>c\<close> runs the function of that descriptor with its argument,
  once, and clears its bit in the sender's mask before it is back at the lock, which it
  has not touched meanwhile. And whatever the other CPUs do in between, in every
  schedule that continues from the failed attempt, \<open>c\<close> is not back at the lock before
  that function has run on \<open>c\<close> once more.
\<close>

theorem vnmi_spin_services_request:
  assumes "s = exec as vnmi_boot" "spc s c = S_trylock" "hpc s c = H_idle"
    "vnmi_lock s = Some h"
  shows "(let s1 = cpu_step c s; s2 = cpu_step c s1 in
            spc s1 c = S_body \<and> hpc s1 c = H_idle
            \<and> s2 = (if hw_off s c then s\<lparr>hpc := (hpc s)(c := H_rdlock)\<rparr> else s))
       \<and> (hw_off s c \<and> wr_lock s = None \<and> vnmi_data s = Some d \<and> c \<in> cpumask (frame s d) \<longrightarrow>
            (let s2 = cpu_step c (cpu_step c s); s3 = cpu_step c s2; s4 = cpu_step c s3;
                 s5 = cpu_step c s4; s6 = cpu_step c s5; s7 = cpu_step c s6 in
               hpc s2 c = H_rdlock \<and> hpc s3 c = H_test \<and> hpc s4 c = H_call d
               \<and> hpc s5 c = H_clear d \<and> hpc s6 c = H_rdunlock \<and> hpc s7 c = H_idle
               \<and> spc s7 c = S_trylock
               \<and> fn_log s7 = fn_log s @ [(c, fn (frame s d), arg (frame s d))]
               \<and> runs s7 d c = Suc (runs s d c)
               \<and> cpumask (frame s7 d) = cpumask (frame s d) - {c}
               \<and> vnmi_lock s7 = Some h \<and> vnmi_data s7 = Some d))
       \<and> (hw_off s c \<and> vnmi_data s = Some d \<and> c \<in> cpumask (frame s d) \<longrightarrow>
            (\<forall>bs. let s' = exec bs (cpu_step c s) in
               spc s' c = S_trylock \<and> hpc s' c = H_idle \<longrightarrow>
               count_list (fn_log s) (c, fn (frame s d), arg (frame s d))
                 < count_list (fn_log s') (c, fn (frame s d), arg (frame s d))))"
proof -
  have s1: "cpu_step c s = s\<lparr>spc := (spc s)(c := S_body)\<rparr>"
    using assms(2-4) by (simp add: step_defs)
  have s2: "cpu_step c (cpu_step c s)
              = (if hw_off s c then s\<lparr>hpc := (hpc s)(c := H_rdlock)\<rparr> else s)"
    using assms(2-4) by (simp add: s1 step_defs fun_upd_idem)
  have A: "let s1 = cpu_step c s; s2 = cpu_step c s1 in
            spc s1 c = S_body \<and> hpc s1 c = H_idle
            \<and> s2 = (if hw_off s c then s\<lparr>hpc := (hpc s)(c := H_rdlock)\<rparr> else s)"
    using assms(2-4) by (simp add: Let_def s2) (simp add: s1)
  have B: "hw_off s c \<and> wr_lock s = None \<and> vnmi_data s = Some d \<and> c \<in> cpumask (frame s d) \<longrightarrow>
            (let s2 = cpu_step c (cpu_step c s); s3 = cpu_step c s2; s4 = cpu_step c s3;
                 s5 = cpu_step c s4; s6 = cpu_step c s5; s7 = cpu_step c s6 in
               hpc s2 c = H_rdlock \<and> hpc s3 c = H_test \<and> hpc s4 c = H_call d
               \<and> hpc s5 c = H_clear d \<and> hpc s6 c = H_rdunlock \<and> hpc s7 c = H_idle
               \<and> spc s7 c = S_trylock
               \<and> fn_log s7 = fn_log s @ [(c, fn (frame s d), arg (frame s d))]
               \<and> runs s7 d c = Suc (runs s d c)
               \<and> cpumask (frame s7 d) = cpumask (frame s d) - {c}
               \<and> vnmi_lock s7 = Some h \<and> vnmi_data s7 = Some d)"
  proof
    assume p: "hw_off s c \<and> wr_lock s = None \<and> vnmi_data s = Some d \<and> c \<in> cpumask (frame s d)"
    have t2: "cpu_step c (cpu_step c s) = s\<lparr>hpc := (hpc s)(c := H_rdlock)\<rparr>"
      using s2 p by simp
    show "let s2 = cpu_step c (cpu_step c s); s3 = cpu_step c s2; s4 = cpu_step c s3;
                 s5 = cpu_step c s4; s6 = cpu_step c s5; s7 = cpu_step c s6 in
               hpc s2 c = H_rdlock \<and> hpc s3 c = H_test \<and> hpc s4 c = H_call d
               \<and> hpc s5 c = H_clear d \<and> hpc s6 c = H_rdunlock \<and> hpc s7 c = H_idle
               \<and> spc s7 c = S_trylock
               \<and> fn_log s7 = fn_log s @ [(c, fn (frame s d), arg (frame s d))]
               \<and> runs s7 d c = Suc (runs s d c)
               \<and> cpumask (frame s7 d) = cpumask (frame s d) - {c}
               \<and> vnmi_lock s7 = Some h \<and> vnmi_data s7 = Some d"
      using assms(2-4) p by (simp add: t2 Let_def step_defs)
  qed
  have C: "hw_off s c \<and> vnmi_data s = Some d \<and> c \<in> cpumask (frame s d) \<longrightarrow>
            (\<forall>bs. let s' = exec bs (cpu_step c s) in
               spc s' c = S_trylock \<and> hpc s' c = H_idle \<longrightarrow>
               count_list (fn_log s) (c, fn (frame s d), arg (frame s d))
                 < count_list (fn_log s') (c, fn (frame s d), arg (frame s d)))"
  proof (intro impI allI)
    fix bs
    assume p: "hw_off s c \<and> vnmi_data s = Some d \<and> c \<in> cpumask (frame s d)"
    have V: "vinv (cpu_step c s)"
      using assms(1) by (simp add: vinv_cpu_step vinv_reachable)
    have Q: "answering c d (fn (frame s d)) (arg (frame s d))
               (count_list (fn_log s) (c, fn (frame s d), arg (frame s d))) (cpu_step c s)"
      using assms(2-4) p by (simp add: s1 answering_def targeted_def)
    note R = answering_exec[OF V Q, of bs]
    show "let s' = exec bs (cpu_step c s) in
               spc s' c = S_trylock \<and> hpc s' c = H_idle \<longrightarrow>
               count_list (fn_log s) (c, fn (frame s d), arg (frame s d))
                 < count_list (fn_log s') (c, fn (frame s d), arg (frame s d))"
      using answering_back[OF R] by (simp add: Let_def)
  qed
  from A B C show ?thesis by blast
qed

theorem vnmi_spin_services_request_witness:
  "spc (exec sample_contention vnmi_boot) 0 = S_trylock
   \<and> hpc (exec sample_contention vnmi_boot) 0 = H_idle
   \<and> vnmi_lock (exec sample_contention vnmi_boot) = Some 1
   \<and> hw_off (exec sample_contention vnmi_boot) 0
   \<and> wr_lock (exec sample_contention vnmi_boot) = None
   \<and> vnmi_data (exec sample_contention vnmi_boot) = Some 1
   \<and> 0 \<in> cpumask (frame (exec sample_contention vnmi_boot) 1)
   \<and> fn_log (cpu_step 0 (cpu_step 0 (cpu_step 0 (cpu_step 0 (cpu_step 0 (cpu_step 0
        (cpu_step 0 (exec sample_contention vnmi_boot))))))))
       = fn_log (exec sample_contention vnmi_boot)
         @ [(0, fn (frame (exec sample_contention vnmi_boot) 1),
                arg (frame (exec sample_contention vnmi_boot) 1))]
   \<and> spc (cpu_step 0 (cpu_step 0 (cpu_step 0 (cpu_step 0 (cpu_step 0 (cpu_step 0
        (cpu_step 0 (exec sample_contention vnmi_boot)))))))) 0 = S_trylock
   \<and> spc (exec sample_answer (cpu_step 0 (exec sample_contention vnmi_boot))) 0 = S_trylock
   \<and> hpc (exec sample_answer (cpu_step 0 (exec sample_contention vnmi_boot))) 0 = H_idle
   \<and> count_list (fn_log (exec sample_contention vnmi_boot))
        (0, fn (frame (exec sample_contention vnmi_boot) 1),
            arg (frame (exec sample_contention vnmi_boot) 1))
      < count_list
          (fn_log (exec sample_answer (cpu_step 0 (exec sample_contention vnmi_boot))))
          (0, fn (frame (exec sample_contention vnmi_boot) 1),
              arg (frame (exec sample_contention vnmi_boot) 1))"
proof -
  have a: "spc (exec sample_contention vnmi_boot) 0 = S_trylock" by code_simp
  have b: "hpc (exec sample_contention vnmi_boot) 0 = H_idle" by code_simp
  have c: "vnmi_lock (exec sample_contention vnmi_boot) = Some 1" by code_simp
  have d: "hw_off (exec sample_contention vnmi_boot) 0
     \<and> wr_lock (exec sample_contention vnmi_boot) = None
     \<and> vnmi_data (exec sample_contention vnmi_boot) = Some 1
     \<and> 0 \<in> cpumask (frame (exec sample_contention vnmi_boot) 1)" by code_simp
  have d': "hw_off (exec sample_contention vnmi_boot) 0
     \<and> vnmi_data (exec sample_contention vnmi_boot) = Some 1
     \<and> 0 \<in> cpumask (frame (exec sample_contention vnmi_boot) 1)" using d by blast
  have e: "spc (exec sample_answer (cpu_step 0 (exec sample_contention vnmi_boot))) 0
             = S_trylock
     \<and> hpc (exec sample_answer (cpu_step 0 (exec sample_contention vnmi_boot))) 0 = H_idle"
    by code_simp
  note T = vnmi_spin_services_request [OF refl a b c, of 1]
  note T2 = T [THEN conjunct2, THEN conjunct1, THEN mp, OF d, unfolded Let_def]
  note T3 = T [THEN conjunct2, THEN conjunct2, THEN mp, OF d', THEN spec, of sample_answer,
      unfolded Let_def, THEN mp, OF e]
  from a b c d e T2 T3 show ?thesis
    by blast
qed

subsection \<open>The descriptor is withdrawn before the call returns\<close>



end
